theory Spec2Isabelle
  imports Main "HOL-Library.Sublist"
begin

section \<open>Strings of the client\<close>

text \<open>
  A JavaScript string is a sequence of code units; the model is \<open>string\<close>, that is the
  code units \<open>0x00\<close> to \<open>0xFF\<close>. Every literal of the client is ASCII, and the white space
  of this range is the same for \<open>String.prototype.trim\<close> and for the regular expression
  class \<open>\s\<close>: TAB, LF, VT, FF, CR, SPACE and NBSP.
\<close>

definition isWhiteSpace :: "char \<Rightarrow> bool" where
  "isWhiteSpace c = (c \<in> set [CHR 0x09, CHR 0x0A, CHR 0x0B, CHR 0x0C, CHR 0x0D, CHR 0x20, CHR 0xA0])"

definition isDigit :: "char \<Rightarrow> bool" where
  "isDigit c = (c \<in> set ''0123456789'')"

text \<open>
  \<open>Canonicalize\<close> of a regular expression with the \<open>i\<close> flag (no \<open>u\<close> flag) maps a code
  unit to its upper case. It never maps a code unit above \<open>0x7F\<close> to an ASCII one, and
  all literals of the patterns are ASCII, so only the ASCII letters matter.
\<close>

definition canonicalize :: "char \<Rightarrow> char" where
  "canonicalize c =
     (case map_of (zip ''abcdefghijklmnopqrstuvwxyz'' ''ABCDEFGHIJKLMNOPQRSTUVWXYZ'') c of
        Some u \<Rightarrow> u
      | None \<Rightarrow> c)"

text \<open>\<open>s.trim()\<close>: white space is removed at both ends.\<close>

definition trim :: "string \<Rightarrow> string" where
  "trim s = rev (dropWhile isWhiteSpace (rev (dropWhile isWhiteSpace s)))"

text \<open>\<open>s.split('\n')\<close>: never empty; the empty string gives one empty line.\<close>

fun split_lines :: "string \<Rightarrow> string list" where
  "split_lines [] = [[]]"
| "split_lines (c # cs) =
     (if c = CHR 0x0A then [] # split_lines cs
      else (case split_lines cs of
              [] \<Rightarrow> [[c]]
            | l # ls \<Rightarrow> (c # l) # ls))"

text \<open>\<open>s.startsWith(p)\<close>.\<close>

definition startsWith :: "string \<Rightarrow> string \<Rightarrow> bool" where
  "startsWith s p = (take (length p) s = p)"

text \<open>\<open>xs.join(sep)\<close>.\<close>

fun join :: "string \<Rightarrow> string list \<Rightarrow> string" where
  "join sep [] = []"
| "join sep [x] = x"
| "join sep (x # y # ys) = x @ sep @ join sep (y # ys)"

text \<open>A length written into a template literal: its decimal digits.\<close>

fun showNat :: "nat \<Rightarrow> string" where
  "showNat n =
     (if n < 10 then [''0123456789'' ! n]
      else showNat (n div 10) @ [''0123456789'' ! (n mod 10)])"

section \<open>Regular expressions\<close>

text \<open>
  The fragment the client's patterns are written in: a literal code unit, the classes
  \<open>\s\<close> and \<open>\d\<close>, a class repeated (\<open>*\<close>, \<open>+\<close>), sequence, alternation and an optional
  group. \<open>RegExp.prototype.test\<close> answers whether some match exists, so greedy
  matching and backtracking are all the ways to match: \<open>matchAt\<close> returns the rest of the
  string after every match of the expression at the start of the string.
\<close>

datatype atom = Ch char | WhiteSpace | Digit

datatype regex =
    Eps
  | One atom
  | Many atom
  | Seq regex regex
  | Alt regex regex
  | Opt regex

fun atomMatches :: "bool \<Rightarrow> atom \<Rightarrow> char \<Rightarrow> bool" where
  "atomMatches ignoreCase (Ch a) c =
     (if ignoreCase then canonicalize a = canonicalize c else a = c)"
| "atomMatches ignoreCase WhiteSpace c = isWhiteSpace c"
| "atomMatches ignoreCase Digit c = isDigit c"

fun matchAt :: "bool \<Rightarrow> regex \<Rightarrow> string \<Rightarrow> string list" where
  "matchAt ic Eps s = [s]"
| "matchAt ic (One a) [] = []"
| "matchAt ic (One a) (c # cs) = (if atomMatches ic a c then [cs] else [])"
| "matchAt ic (Many a) [] = [[]]"
| "matchAt ic (Many a) (c # cs) =
     (c # cs) # (if atomMatches ic a c then matchAt ic (Many a) cs else [])"
| "matchAt ic (Seq r1 r2) s = concat (map (matchAt ic r2) (matchAt ic r1 s))"
| "matchAt ic (Alt r1 r2) s = matchAt ic r1 s @ matchAt ic r2 s"
| "matchAt ic (Opt r) s = matchAt ic r s @ [s]"

text \<open>A literal string, \<open>a+\<close> and an alternation of several branches.\<close>

definition Str :: "string \<Rightarrow> regex" where
  "Str w = foldr (\<lambda>c r. Seq (One (Ch c)) r) w Eps"

definition Many1 :: "atom \<Rightarrow> regex" where
  "Many1 a = Seq (One a) (Many a)"

definition Alts :: "regex list \<Rightarrow> regex" where
  "Alts rs = foldr Alt (butlast rs) (last rs)"

definition Seqs :: "regex list \<Rightarrow> regex" where
  "Seqs rs = foldr Seq rs Eps"

text \<open>
  A pattern: whether it begins with \<open>^\<close> (no pattern of the client has the \<open>m\<close> flag, so
  \<open>^\<close> is the start of the string), whether it has the \<open>i\<close> flag, and its body. Without
  \<open>^\<close> the match may begin at any position of the string.
\<close>

record pattern =
  anchored :: bool
  ignoreCase :: bool
  body :: regex

definition test :: "pattern \<Rightarrow> string \<Rightarrow> bool" where
  "test p s =
     (if anchored p then matchAt (ignoreCase p) (body p) s \<noteq> []
      else list_ex (\<lambda>t. matchAt (ignoreCase p) (body p) t \<noteq> []) (suffixes s))"

section \<open>The error patterns of \<open>_detectErrors\<close>\<close>

definition rx :: "bool \<Rightarrow> bool \<Rightarrow> regex list \<Rightarrow> pattern" where
  "rx anch ic rs = \<lparr>anchored = anch, ignoreCase = ic, body = Seqs rs\<rparr>"

definition errorPatterns :: "pattern list" where
  "errorPatterns = [
     \<comment> \<open>AHK v1 errors\<close>
     rx True True [Str ''Error'',
                   Opt (Seqs [Many1 WhiteSpace, Str ''in'', Many1 WhiteSpace, Str ''#include'']),
                   Str '':''],
     rx True True [Str ''Error:'', Many1 WhiteSpace],
     rx False True [Str ''-->'', Many WhiteSpace, Str ''Line Text:''],
     rx False True [Str ''-->'', Many WhiteSpace, Str ''Line#:''],
     rx True True [Str ''Specifically:'', Many1 WhiteSpace],
     rx True True [Str ''The following variable name contains an illegal character:''],
     rx True True [Str ''Call to nonexistent function''],
     rx True True [Str ''Duplicate '', Alts [Str ''function'', Str ''label'', Str ''hotkey'']],
     rx True True [Str ''Invalid hotkey''],
     rx True True [Str ''Missing '', Alts [Str ''comma'', Str ''closing'', Str ''opening'']],
     rx True True [Str ''Unexpected end of file''],
     rx True True [Str ''This line does not contain a recognized action''],
     rx True True [Str ''Target label does not exist''],
     \<comment> \<open>AHK v2 errors\<close>
     rx True False [Alts [Str ''Error'', Str ''ValueError'', Str ''TypeError'', Str ''OSError'',
                          Str ''TargetError'', Str ''MemberError'', Str ''PropertyError'',
                          Str ''MethodError'', Str ''UnsetError'', Str ''UnsetItemError'',
                          Str ''ZeroDivisionError''],
                    Str '':''],
     rx True False [Many1 WhiteSpace, Str ''Line '', Many1 Digit, Str '':''],
     rx True False [Many1 WhiteSpace, Str ''What: ''],
     rx True False [Many1 WhiteSpace, Str ''File: ''],
     rx True False [Many1 WhiteSpace, Str ''Stack:''],
     \<comment> \<open>Wine/system errors\<close>
     rx True True [Str ''wine:''],
     rx True True [Str ''err:''],
     rx True True [Str ''fixme:'']
   ]"

text \<open>\<open>errorPatterns.some(pattern => pattern.test(trimmedLine))\<close>\<close>

definition isErrorLine :: "string \<Rightarrow> bool" where
  "isErrorLine trimmedLine = list_ex (\<lambda>p. test p trimmedLine) errorPatterns"

section \<open>\<open>_classifyError\<close>\<close>

definition classifyError :: "string \<Rightarrow> string" where
  "classifyError msg =
     (if test (rx False True [Alts [Str ''syntax'', Str ''unexpected'', Str ''missing'',
                                    Str ''invalid'']]) msg then ''syntax''
      else if test (rx False True [Alts [Str ''undefined'', Str ''nonexistent'',
                                         Str ''not found'', Str ''unset'']]) msg then ''reference''
      else if test (rx False True [Alts [Str ''type'', Str ''typeerror'']]) msg then ''type''
      else if test (rx False True [Alts [Str ''timeout'', Str ''timed out'']]) msg then ''timeout''
      else if test (rx False True [Alts [Str ''wine:'', Str ''err:'', Str ''fixme:'']]) msg
        then ''wine''
      else ''runtime'')"

section \<open>\<open>_detectErrors\<close>\<close>

record ahkError =
  line :: nat
  message :: string
  context' :: "string list"
  type' :: string

text \<open>
  The local variables of the loop: \<open>errors\<close>, \<open>currentError\<close> (\<open>None\<close> is \<open>null\<close>) and
  \<open>inErrorBlock\<close>.
\<close>

type_synonym scanState = "ahkError list \<times> ahkError option \<times> bool"

text \<open>The first test of the \<open>else if\<close> branch: the line continues the error's context.\<close>

definition continuesContext :: "string \<Rightarrow> bool" where
  "continuesContext trimmedLine =
     (startsWith trimmedLine ''-->'' \<or>
      startsWith trimmedLine ''Line'' \<or>
      startsWith trimmedLine ''What:'' \<or>
      startsWith trimmedLine ''File:'' \<or>
      startsWith trimmedLine ''Stack:'' \<or>
      test (rx True False [Many1 Digit, Str '':'']) trimmedLine)"

text \<open>The body of the loop at index \<open>i\<close> (from 0) on the line \<open>lines[i]\<close>.\<close>

fun scanLine :: "nat \<Rightarrow> string \<Rightarrow> scanState \<Rightarrow> scanState" where
  "scanLine i ln (errors, currentError, inErrorBlock) =
     (let trimmedLine = trim ln in
      if isErrorLine trimmedLine then
        ((case currentError of Some e \<Rightarrow> errors @ [e] | None \<Rightarrow> errors),
         Some \<lparr>line = i + 1, message = trimmedLine, context' = [],
               type' = classifyError trimmedLine\<rparr>,
         True)
      else (case currentError of
              Some e \<Rightarrow>
                if inErrorBlock then
                  (if continuesContext trimmedLine then
                     (errors, Some (e\<lparr>context' := context' e @ [trimmedLine]\<rparr>), inErrorBlock)
                   else if trimmedLine = [] \<or>
                           (\<not> startsWith trimmedLine '' '' \<and>
                            \<not> startsWith trimmedLine [CHR 0x09]) then
                     (errors @ [e], None, False)
                   else
                     (errors, Some (e\<lparr>context' := context' e @ [trimmedLine]\<rparr>), inErrorBlock))
                else (errors, currentError, inErrorBlock)
            | None \<Rightarrow> (errors, currentError, inErrorBlock)))"

fun scanFrom :: "nat \<Rightarrow> string list \<Rightarrow> scanState \<Rightarrow> scanState" where
  "scanFrom i [] st = st"
| "scanFrom i (ln # lns) st = scanFrom (i + 1) lns (scanLine i ln st)"

text \<open>After the loop the error still open is pushed.\<close>

fun finish :: "scanState \<Rightarrow> ahkError list" where
  "finish (errors, Some e, inErrorBlock) = errors @ [e]"
| "finish (errors, None, inErrorBlock) = errors"

definition detectErrors :: "string \<Rightarrow> ahkError list" where
  "detectErrors output = finish (scanFrom 0 (split_lines output) ([], None, False))"

section \<open>\<open>_generateSummary\<close>\<close>

definition renderError :: "ahkError \<Rightarrow> string" where
  "renderError e =
     (let msg = ''['' @ type' e @ ''] '' @ message e in
      if length (context' e) > 0
      then msg @ [CHR 0x0A] @ ''  '' @ join ([CHR 0x0A] @ ''  '') (take 3 (context' e))
      else msg)"

definition generateSummary :: "string \<Rightarrow> ahkError list \<Rightarrow> bool \<Rightarrow> string" where
  "generateSummary output errors timedOut =
     (if timedOut then
        ''Script execution timed out (exceeded 7 seconds). Check for infinite loops or blocking operations.''
      else if length errors = 0 then
        (let outputPreview = (if length output > 200 then take 200 output @ ''...'' else output)
         in ''Script executed successfully.'' @ [CHR 0x0A] @ ''Output: '' @
            (if outputPreview = [] then ''(no output)'' else outputPreview))
      else
        (let errorSummary = join [CHR 0x0A, CHR 0x0A] (map renderError errors)
         in ''Script failed with '' @ showNat (length errors) @ '' error(s):'' @
            [CHR 0x0A, CHR 0x0A] @ errorSummary))"

section \<open>\<open>_parseResult\<close>\<close>

text \<open>
  The decoded response of the executor: \<open>stdout\<close> (absent or \<open>null\<close> is \<open>None\<close>), \<open>time\<close>
  (a number, or \<open>null\<close> after a timeout: \<open>None\<close>) and \<open>language\<close>, which is passed on.
\<close>

record ('n, 'l) apiResult =
  stdout :: "string option"
  time :: "'n option"
  language :: 'l

record ('n, 'l) executionResult =
  success :: bool
  output' :: string
  executionTime :: "'n option"
  timedOut :: bool
  language :: 'l
  errors :: "ahkError list"
  hasErrors :: bool
  summary :: string

definition parseResult :: "('n, 'l) apiResult \<Rightarrow> ('n, 'l) executionResult" where
  "parseResult result =
     (let output = (case stdout result of Some s \<Rightarrow> s | None \<Rightarrow> []);
          timedOut = (time result = None);
          errors = detectErrors output
      in \<lparr>success = (length errors = 0 \<and> \<not> timedOut),
          output' = output,
          executionTime = time result,
          timedOut = timedOut,
          language = apiResult.language result,
          errors = errors,
          hasErrors = (length errors > 0),
          summary = generateSummary output errors timedOut\<rparr>)"

section \<open>The classification as the specification words it\<close>

text \<open>
  The specification describes \<open>_classifyError\<close> as ordered tests on the message, without
  regard to case: a keyword is contained in the message, or the message starts with
  it. Both are stated on lists, apart from the regular expressions above.
  \<open>classifyAsClaimed\<close> follows the specification to the letter (the fifth rule tests
  the start of the message); \<open>classifyByPriority\<close> has the fifth rule test containment
  like the other four.
\<close>

definition containsCI :: "string \<Rightarrow> string \<Rightarrow> bool" where
  "containsCI s w = sublist (map canonicalize w) (map canonicalize s)"

definition startsWithCI :: "string \<Rightarrow> string \<Rightarrow> bool" where
  "startsWithCI s w = prefix (map canonicalize w) (map canonicalize s)"

definition classifyAsClaimed :: "string \<Rightarrow> string" where
  "classifyAsClaimed msg =
     (if containsCI msg ''syntax'' \<or> containsCI msg ''unexpected'' \<or>
         containsCI msg ''missing'' \<or> containsCI msg ''invalid'' then ''syntax''
      else if containsCI msg ''undefined'' \<or> containsCI msg ''nonexistent'' \<or>
              containsCI msg ''not found'' \<or> containsCI msg ''unset'' then ''reference''
      else if containsCI msg ''type'' then ''type''
      else if containsCI msg ''timeout'' \<or> containsCI msg ''timed out'' then ''timeout''
      else if startsWithCI msg ''wine:'' \<or> startsWithCI msg ''err:'' \<or>
              startsWithCI msg ''fixme:'' then ''wine''
      else ''runtime'')"

definition classifyByPriority :: "string \<Rightarrow> string" where
  "classifyByPriority msg =
     (if containsCI msg ''syntax'' \<or> containsCI msg ''unexpected'' \<or>
         containsCI msg ''missing'' \<or> containsCI msg ''invalid'' then ''syntax''
      else if containsCI msg ''undefined'' \<or> containsCI msg ''nonexistent'' \<or>
              containsCI msg ''not found'' \<or> containsCI msg ''unset'' then ''reference''
      else if containsCI msg ''type'' then ''type''
      else if containsCI msg ''timeout'' \<or> containsCI msg ''timed out'' then ''timeout''
      else if containsCI msg ''wine:'' \<or> containsCI msg ''err:'' \<or>
              containsCI msg ''fixme:'' then ''wine''
      else ''runtime'')"

section \<open>Lemmas about the scan\<close>

lemma scanFrom_append:
  "scanFrom i (xs @ ys) st = scanFrom (i + length xs) ys (scanFrom i xs st)"
  by (induction xs arbitrary: i st) simp_all

lemma scanLine_header:
  "isErrorLine (trim ln) \<Longrightarrow>
   scanLine i ln (es, cur, b) =
     ((case cur of Some e \<Rightarrow> es @ [e] | None \<Rightarrow> es),
      Some \<lparr>line = i + 1, message = trim ln, context' = [], type' = classifyError (trim ln)\<rparr>,
      True)"
  by (simp add: Let_def)

lemma scanLine_cases:
  "(\<exists>e'. scanLine i ln (es, cur, b) = ((case cur of Some e \<Rightarrow> es @ [e] | None \<Rightarrow> es), Some e', True) \<and> context' e' = []) \<or>
   (\<exists>e. cur = Some e \<and> scanLine i ln (es, cur, b) = (es, Some (e\<lparr>context' := context' e @ [trim ln]\<rparr>), b)) \<or>
   (\<exists>e. cur = Some e \<and> scanLine i ln (es, cur, b) = (es @ [e], None, False)) \<or>
   scanLine i ln (es, cur, b) = (es, cur, b)"
  by (auto simp: Let_def split: option.splits)

lemma finish_scanFrom_extends:
  "\<exists>more. finish (scanFrom i lns (es, cur, b)) = es @ more"
proof (induction lns arbitrary: i es cur b)
  case Nil
  show ?case by (cases cur) simp_all
next
  case (Cons ln lns)
  obtain es' cur' b' where st: "scanLine i ln (es, cur, b) = (es', cur', b')"
    by (metis prod_cases3)
  have "\<exists>m. es' = es @ m"
    using scanLine_cases[of i ln es cur b] st by (auto split: option.splits)
  then obtain m where m: "es' = es @ m" ..
  from Cons.IH[of "i + 1" es' cur' b'] obtain more where
    "finish (scanFrom (i + 1) lns (es', cur', b')) = es' @ more" ..
  then show ?case using st m by simp
qed


lemma finish_scanFrom_open:
  "\<exists>c after. finish (scanFrom i lns (es, Some e, True)) = es @ [e\<lparr>context' := context' e @ c\<rparr>] @ after
      \<and> subseq c (map trim lns)"
proof (induction lns arbitrary: i es e)
  case Nil
  have "finish (scanFrom i [] (es, Some e, True)) = es @ [e\<lparr>context' := context' e @ []\<rparr>] @ []"
    by simp
  then show ?case by (metis list.simps(8) subseq_order.order_refl)
next
  case (Cons ln lns)
  let ?st = "scanLine i ln (es, Some e, True)"
  consider
      (header) e' where "?st = (es @ [e], Some e', True)"
    | (more) "?st = (es, Some (e\<lparr>context' := context' e @ [trim ln]\<rparr>), True)"
    | (close) "?st = (es @ [e], None, False)"
    | (same) "?st = (es, Some e, True)"
    using scanLine_cases[of i ln es "Some e" True] by auto
  then show ?case
  proof cases
    case header
    obtain m where "finish (scanFrom (i + 1) lns (es @ [e], Some e', True)) = (es @ [e]) @ m"
      using finish_scanFrom_extends by blast
    then have "finish (scanFrom i (ln # lns) (es, Some e, True)) = es @ [e\<lparr>context' := context' e @ []\<rparr>] @ m"
      using header by simp
    then show ?thesis by (metis list_emb_Nil)
  next
    case more
    from Cons.IH[of "i + 1" es "e\<lparr>context' := context' e @ [trim ln]\<rparr>"]
    obtain c after where
      h: "finish (scanFrom (i + 1) lns (es, Some (e\<lparr>context' := context' e @ [trim ln]\<rparr>), True))
          = es @ [e\<lparr>context' := context' e @ [trim ln]\<rparr>\<lparr>context' := context' (e\<lparr>context' := context' e @ [trim ln]\<rparr>) @ c\<rparr>] @ after"
      and s: "subseq c (map trim lns)" by blast
    have "finish (scanFrom i (ln # lns) (es, Some e, True)) = es @ [e\<lparr>context' := context' e @ (trim ln # c)\<rparr>] @ after"
      using more h by simp
    moreover have "subseq (trim ln # c) (map trim (ln # lns))" using s by simp
    ultimately show ?thesis by blast
  next
    case close
    obtain m where "finish (scanFrom (i + 1) lns (es @ [e], None, False)) = (es @ [e]) @ m"
      using finish_scanFrom_extends by blast
    then have "finish (scanFrom i (ln # lns) (es, Some e, True)) = es @ [e\<lparr>context' := context' e @ []\<rparr>] @ m"
      using close by simp
    then show ?thesis by (metis list_emb_Nil)
  next
    case same
    from Cons.IH[of "i + 1" es e] obtain c after where
      h: "finish (scanFrom (i + 1) lns (es, Some e, True)) = es @ [e\<lparr>context' := context' e @ c\<rparr>] @ after"
      and s: "subseq c (map trim lns)" by blast
    have "finish (scanFrom i (ln # lns) (es, Some e, True)) = es @ [e\<lparr>context' := context' e @ c\<rparr>] @ after"
      using same h by simp
    moreover have "subseq c (map trim (ln # lns))" using s by (simp add: list_emb_Cons)
    ultimately show ?thesis by blast
  qed
qed

lemma map_line_scanLine:
  "map (\<lambda>e. (line e, message e)) (finish (scanLine i ln st)) =
   map (\<lambda>e. (line e, message e)) (finish st) @
     (if isErrorLine (trim ln) then [(i + 1, trim ln)] else [])"
proof -
  obtain es cur b where st: "st = (es, cur, b)" by (metis prod_cases3)
  show ?thesis unfolding st by (cases cur) (simp_all add: Let_def)
qed

lemma map_line_scanFrom:
  "map (\<lambda>e. (line e, message e)) (finish (scanFrom i lns st)) =
   map (\<lambda>e. (line e, message e)) (finish st) @
     map (\<lambda>(j, ln). (j + 1, trim ln))
       (filter (\<lambda>(j, ln). isErrorLine (trim ln)) (enumerate i lns))"
proof (induction lns arbitrary: i st)
  case Nil
  show ?case by simp
next
  case (Cons ln lns)
  show ?case
    using Cons.IH[of "i + 1" "scanLine i ln st"] map_line_scanLine[of i ln st]
    by simp
qed

lemma sorted_enumerate_filter:
  "sorted_wrt (<) (map (\<lambda>(j, ln). j + (1::nat)) (filter P (enumerate i lns)))"
proof -
  have eq: "(\<lambda>(j, ln). j + (1::nat)) = Suc \<circ> (fst :: nat \<times> 'a \<Rightarrow> nat)"
    by auto
  have "sorted_wrt (<) (map fst (enumerate i lns))"
    by (simp add: map_fst_enumerate)
  then have "sorted_wrt (<) (map fst (filter P (enumerate i lns)))"
    by (metis sorted_wrt_filter sorted_wrt_map filter_map)
  then have "sorted_wrt (<) (map Suc (map fst (filter P (enumerate i lns))))"
    by (simp add: sorted_wrt_map)
  then show ?thesis unfolding eq by simp
qed

text \<open>
  A trimmed line never begins with white space. So the last test of the loop body,
  which reads the trimmed line, holds for every line that reaches it: the final
  \<open>else\<close> branch is never taken, and a start pattern that requires leading white space
  never matches.
\<close>

lemma trim_no_leading_white_space:
  assumes "trim s = c # cs"
  shows "\<not> isWhiteSpace c"
proof -
  let ?t = "dropWhile isWhiteSpace s"
  have "rev ?t = takeWhile isWhiteSpace (rev ?t) @ dropWhile isWhiteSpace (rev ?t)"
    by simp
  then have "?t = rev (dropWhile isWhiteSpace (rev ?t)) @ rev (takeWhile isWhiteSpace (rev ?t))"
    by (metis rev_append rev_rev_ident)
  then have t: "?t = (c # cs) @ rev (takeWhile isWhiteSpace (rev ?t))"
    using assms by (simp add: trim_def)
  then have "?t \<noteq> []" and "hd ?t = c" by (metis append_Cons list.distinct(1), metis append_Cons list.sel(1))
  then show ?thesis using hd_dropWhile[of isWhiteSpace s] by auto
qed

lemma trimmed_not_indented:
  "\<not> startsWith (trim s) '' '' \<and> \<not> startsWith (trim s) [CHR 0x09]"
proof (cases "trim s")
  case Nil
  then show ?thesis by (simp add: startsWith_def)
next
  case (Cons c cs)
  then have "\<not> isWhiteSpace c" by (rule trim_no_leading_white_space)
  then have "c \<noteq> CHR '' ''" and "c \<noteq> CHR 0x09" by (auto simp: isWhiteSpace_def)
  then show ?thesis using Cons by (simp add: startsWith_def)
qed

lemma scanLine_open:
  "scanLine i ln (es, Some e, True) =
     (if isErrorLine (trim ln) then
        (es @ [e],
         Some \<lparr>line = i + 1, message = trim ln, context' = [], type' = classifyError (trim ln)\<rparr>,
         True)
      else if continuesContext (trim ln) then
        (es, Some (e\<lparr>context' := context' e @ [trim ln]\<rparr>), True)
      else (es @ [e], None, False))"
  using trimmed_not_indented[of ln] by (simp add: Let_def)

lemma empty_not_continuation: "\<not> continuesContext []"
  by code_simp

lemma matchAt_Many1_trim:
  "matchAt ic (Many1 WhiteSpace) (trim s) = []"
proof (cases "trim s")
  case Nil
  then show ?thesis by (simp add: Many1_def)
next
  case (Cons c cs)
  then have "\<not> isWhiteSpace c" by (rule trim_no_leading_white_space)
  then show ?thesis using Cons by (simp add: Many1_def)
qed

lemma leading_space_pattern_dead:
  "\<not> test (rx True ic (Many1 WhiteSpace # rs)) (trim s)"
  by (simp add: test_def rx_def Seqs_def matchAt_Many1_trim)

section \<open>Lemmas about the regular expressions\<close>

lemma Str_Nil: "Str [] = Eps"
  by (simp add: Str_def)

lemma Str_Cons: "Str (c # w) = Seq (One (Ch c)) (Str w)"
  by (simp add: Str_def)

lemma matchAt_Str:
  "matchAt True (Str w) s \<noteq> [] \<longleftrightarrow> prefix (map canonicalize w) (map canonicalize s)"
proof (induction w arbitrary: s)
  case Nil
  show ?case by (simp add: Str_Nil)
next
  case (Cons c w)
  show ?case
  proof (cases s)
    case Nil
    then show ?thesis by (simp add: Str_Cons)
  next
    case (Cons d ds)
    then show ?thesis using Cons.IH[of ds] by (simp add: Str_Cons)
  qed
qed

lemma concat_singletons: "concat (map (\<lambda>x. [x]) xs) = xs"
  by (induction xs) simp_all

lemma matchAt_Seqs_single: "matchAt ic (Seqs [r]) s = matchAt ic r s"
proof -
  have "matchAt ic Eps = (\<lambda>x. [x])" by (rule ext) simp
  then show ?thesis by (simp add: Seqs_def concat_singletons)
qed

lemma Alts_single: "Alts [r] = r"
  by (simp add: Alts_def)

lemma Alts_Cons: "Alts (r # r' # rs) = Alt r (Alts (r' # rs))"
  by (simp add: Alts_def)

lemma matchAt_Alts:
  "rs \<noteq> [] \<Longrightarrow> matchAt ic (Alts rs) s \<noteq> [] \<longleftrightarrow> (\<exists>r\<in>set rs. matchAt ic r s \<noteq> [])"
proof (induction rs rule: induct_list012)
  case 1
  then show ?case by simp
next
  case (2 r)
  show ?case by (simp add: Alts_single)
next
  case (3 r r' rs)
  then show ?case by (simp add: Alts_Cons)
qed

lemma search_prefix_is_sublist:
  "list_ex (\<lambda>t. prefix w (map f t)) (suffixes s) \<longleftrightarrow> sublist w (map f s)"
proof (induction s)
  case Nil
  show ?case by simp
next
  case (Cons x xs)
  then show ?case by (auto simp: sublist_Cons_right)
qed

lemma test_keywords:
  "ws \<noteq> [] \<Longrightarrow>
   test (rx False True [Alts (map Str ws)]) s \<longleftrightarrow> (\<exists>w\<in>set ws. containsCI s w)"
proof -
  assume ne: "ws \<noteq> []"
  have "test (rx False True [Alts (map Str ws)]) s
        \<longleftrightarrow> list_ex (\<lambda>t. \<exists>w\<in>set ws. prefix (map canonicalize w) (map canonicalize t)) (suffixes s)"
    using ne by (simp add: test_def rx_def matchAt_Seqs_single matchAt_Alts matchAt_Str)
  also have "\<dots> \<longleftrightarrow> (\<exists>w\<in>set ws. list_ex (\<lambda>t. prefix (map canonicalize w) (map canonicalize t)) (suffixes s))"
    by (auto simp: list_ex_iff)
  also have "\<dots> \<longleftrightarrow> (\<exists>w\<in>set ws. containsCI s w)"
    by (simp add: search_prefix_is_sublist containsCI_def)
  finally show ?thesis .
qed

lemma containsCI_typeerror: "containsCI s ''typeerror'' \<Longrightarrow> containsCI s ''type''"
proof -
  assume "containsCI s ''typeerror''"
  then have "sublist (map canonicalize ''type'' @ map canonicalize ''error'') (map canonicalize s)"
    by (simp add: containsCI_def)
  then have "sublist (map canonicalize ''type'') (map canonicalize s)"
    by (metis sublist_append_rightI sublist_order.order_trans)
  then show ?thesis by (simp add: containsCI_def)
qed

section \<open>The result of an execution\<close>

text \<open>
  C1. For every response of the executor (every output and every execution time),
  \<open>success\<close> is true exactly when no error was detected and the run did not time out,
  and \<open>timedOut\<close> is true exactly when the execution time is \<open>null\<close>.
\<close>

theorem outcome_invariants:
  "success (parseResult r) = (length (errors (parseResult r)) = 0 \<and> \<not> timedOut (parseResult r)) \<and>
   timedOut (parseResult r) = (executionTime (parseResult r) = None)"
  by (simp add: parseResult_def Let_def)

text \<open>
  C10. \<open>hasErrors\<close> is true exactly when the list of errors is not empty; so, when the
  run did not time out, \<open>hasErrors\<close> is the negation of \<open>success\<close>.
\<close>

theorem hasErrors_invariant:
  "hasErrors (parseResult r) = (length (errors (parseResult r)) > 0) \<and>
   (\<not> timedOut (parseResult r) \<longrightarrow> hasErrors (parseResult r) = (\<not> success (parseResult r)))"
  by (simp add: parseResult_def Let_def)

text \<open>
  The invariant at a response with one error and an execution time.
\<close>

theorem hasErrors_invariant_witness:
  "\<not> timedOut (parseResult \<lparr>stdout = Some ''Error: boom'', time = Some (2::nat), language = ''ahk''\<rparr>) \<and>
   hasErrors (parseResult \<lparr>stdout = Some ''Error: boom'', time = Some (2::nat), language = ''ahk''\<rparr>) \<and>
   \<not> success (parseResult \<lparr>stdout = Some ''Error: boom'', time = Some (2::nat), language = ''ahk''\<rparr>)"
proof -
  have d: "detectErrors ''Error: boom'' \<noteq> []" by code_simp
  have t: "\<not> timedOut (parseResult \<lparr>stdout = Some ''Error: boom'', time = Some (2::nat), language = ''ahk''\<rparr>)"
    by (simp add: parseResult_def Let_def)
  have e: "length (errors (parseResult \<lparr>stdout = Some ''Error: boom'', time = Some (2::nat), language = ''ahk''\<rparr>)) > 0"
    using d by (simp add: parseResult_def Let_def)
  show ?thesis
    using hasErrors_invariant[of "\<lparr>stdout = Some ''Error: boom'', time = Some (2::nat), language = ''ahk''\<rparr>"] t e
    by blast
qed

section \<open>The summary\<close>

text \<open>
  C6. When \<open>timedOut\<close> is true the summary is the fixed timeout message, whatever the
  output and the errors are; so it is for every response whose time is \<open>null\<close>.
\<close>

theorem timeout_summary:
  "generateSummary output errs True =
     ''Script execution timed out (exceeded 7 seconds). Check for infinite loops or blocking operations.'' \<and>
   summary (parseResult \<lparr>stdout = out, time = None, language = lang\<rparr>) =
     ''Script execution timed out (exceeded 7 seconds). Check for infinite loops or blocking operations.''"
  by (simp add: generateSummary_def parseResult_def Let_def)

text \<open>
  C7, as the claim states it, fails on an output of white space only: the output is not
  empty, so it is embedded as it is and the placeholder is not used.
\<close>

theorem whitespace_output_counterexample:
  "list_all isWhiteSpace ''  '' \<and> detectErrors ''  '' = [] \<and>
   generateSummary ''  '' (detectErrors ''  '') False =
     ''Script executed successfully.\<newline>Output:   '' \<and>
   generateSummary ''  '' (detectErrors ''  '') False \<noteq>
     ''Script executed successfully.\<newline>Output: (no output)''"
  by code_simp

text \<open>
  C7, amended. With no timeout and no error the summary is the success message followed
  by the output, cut after 200 code units and followed by an ellipsis when it is longer,
  or by the placeholder when the output is the empty string.
\<close>

theorem success_summary:
  "generateSummary output [] False =
     ''Script executed successfully.\<newline>Output: '' @
     (if output = [] then ''(no output)''
      else if length output > 200 then take 200 output @ ''...''
      else output)"
  by (simp add: generateSummary_def Let_def)

section \<open>The classification\<close>

text \<open>
  C5, as the claim states it, fails on a header that contains \<open>err:\<close> after its start:
  the code answers \<open>wine\<close>, the claimed fifth rule (starts with) would give
  \<open>runtime\<close>.
\<close>

theorem classify_wine_counterexample:
  "classifyError ''Error: stderr: disk full'' = ''wine'' \<and>
   classifyAsClaimed ''Error: stderr: disk full'' = ''runtime''"
  by code_simp

text \<open>
  C5, amended. \<open>_classifyError\<close> is the ordered, case-insensitive test of the message
  for contained keywords, the first rule that applies giving the kind: \<open>syntax\<close>,
  \<open>reference\<close>, \<open>type\<close>, \<open>timeout\<close>, then \<open>wine\<close> when the message contains
  \<open>wine:\<close>, \<open>err:\<close> or \<open>fixme:\<close> anywhere, and \<open>runtime\<close> otherwise. A message that
  contains both \<open>syntax\<close> and \<open>undefined\<close> is classified \<open>syntax\<close>.
\<close>

theorem classify_priority:
  "classifyError msg = classifyByPriority msg \<and>
   (containsCI msg ''syntax'' \<and> containsCI msg ''undefined'' \<longrightarrow> classifyError msg = ''syntax'')"
proof -
  have 1: "test (rx False True [Alts [Str ''syntax'', Str ''unexpected'', Str ''missing'', Str ''invalid'']]) msg
     \<longleftrightarrow> containsCI msg ''syntax'' \<or> containsCI msg ''unexpected'' \<or>
         containsCI msg ''missing'' \<or> containsCI msg ''invalid''"
    using test_keywords[of "[''syntax'', ''unexpected'', ''missing'', ''invalid'']" msg] by simp
  have 2: "test (rx False True [Alts [Str ''undefined'', Str ''nonexistent'', Str ''not found'', Str ''unset'']]) msg
     \<longleftrightarrow> containsCI msg ''undefined'' \<or> containsCI msg ''nonexistent'' \<or>
              containsCI msg ''not found'' \<or> containsCI msg ''unset''"
    using test_keywords[of "[''undefined'', ''nonexistent'', ''not found'', ''unset'']" msg] by simp
  have 3: "test (rx False True [Alts [Str ''type'', Str ''typeerror'']]) msg \<longleftrightarrow> containsCI msg ''type''"
    using test_keywords[of "[''type'', ''typeerror'']" msg] containsCI_typeerror[of msg] by auto
  have 4: "test (rx False True [Alts [Str ''timeout'', Str ''timed out'']]) msg
     \<longleftrightarrow> containsCI msg ''timeout'' \<or> containsCI msg ''timed out''"
    using test_keywords[of "[''timeout'', ''timed out'']" msg] by simp
  have 5: "test (rx False True [Alts [Str ''wine:'', Str ''err:'', Str ''fixme:'']]) msg
     \<longleftrightarrow> containsCI msg ''wine:'' \<or> containsCI msg ''err:'' \<or> containsCI msg ''fixme:''"
    using test_keywords[of "[''wine:'', ''err:'', ''fixme:'']" msg] by simp
  have eq: "classifyError msg = classifyByPriority msg"
    unfolding classifyError_def classifyByPriority_def 1 2 3 4 5 by (rule refl)
  show ?thesis unfolding eq by (simp add: classifyByPriority_def)
qed

text \<open>
  The priority at a header that contains both keywords.
\<close>

theorem classify_priority_witness:
  "containsCI ''Error: Syntax error, undefined label'' ''syntax'' \<and>
   containsCI ''Error: Syntax error, undefined label'' ''undefined'' \<and>
   classifyError ''Error: Syntax error, undefined label'' = ''syntax''"
proof -
  have a: "containsCI ''Error: Syntax error, undefined label'' ''syntax''" by code_simp
  have b: "containsCI ''Error: Syntax error, undefined label'' ''undefined''" by code_simp
  show ?thesis using a b classify_priority[of "''Error: Syntax error, undefined label''"] by blast
qed

section \<open>The segmentation\<close>

text \<open>
  C2 on the code: after a header, an indented line that is not blank, is not a header
  and does not begin with a trace prefix closes the block; the context of the record
  is empty, where the claim has one line.
\<close>

theorem indented_detail_dropped:
  "startsWith ''  some detail'' '' '' \<and> trim ''  some detail'' \<noteq> [] \<and>
   \<not> isErrorLine (trim ''  some detail'') \<and>
   detectErrors ''Error: boom\<newline>  some detail\<newline>\<newline>'' =
     [\<lparr>line = 1, message = ''Error: boom'', context' = [], type' = ''runtime''\<rparr>]"
  by code_simp

text \<open>
  C3, as the claim states it, fails on a line without leading white space that begins
  with a trace prefix: after the header \<open>Error: boom\<close> the line \<open>Line 5 is bad\<close> is
  not a start line and is not indented, yet the block stays open and the line becomes
  its context.
\<close>

theorem unindented_trace_line_counterexample:
  "\<not> isErrorLine (trim ''Line 5 is bad'') \<and>
   \<not> startsWith ''Line 5 is bad'' '' '' \<and> \<not> startsWith ''Line 5 is bad'' [CHR 0x09] \<and>
   scanFrom 0 [''Error: boom''] ([], None, False) =
     ([], Some \<lparr>line = 1, message = ''Error: boom'', context' = [], type' = ''runtime''\<rparr>, True) \<and>
   scanFrom 0 [''Error: boom'', ''Line 5 is bad''] ([], None, False) =
     ([], Some \<lparr>line = 1, message = ''Error: boom'', context' = [''Line 5 is bad''],
                 type' = ''runtime''\<rparr>, True) \<and>
   detectErrors ''Error: boom\<newline>Line 5 is bad\<newline>'' =
     [\<lparr>line = 1, message = ''Error: boom'', context' = [''Line 5 is bad''], type' = ''runtime''\<rparr>]"
  by code_simp

text \<open>
  C3, amended. While an error block is open, a line that is not a start line and whose
  trimmed form is empty, or which has no leading space or tab and whose trimmed form
  does not begin with a trace prefix (\<open>-->\<close>, \<open>Line\<close>, \<open>What:\<close>, \<open>File:\<close>,
  \<open>Stack:\<close>, digits and a colon), closes the block: the record is pushed as it was
  and the line is discarded.
\<close>

theorem plain_line_closes_block:
  assumes lines: "split_lines output = pre @ ln # post"
    and opened: "scanFrom 0 pre ([], None, False) = (es, Some e, True)"
    and nostart: "\<not> isErrorLine (trim ln)"
    and plain: "trim ln = [] \<or>
                (\<not> startsWith ln '' '' \<and> \<not> startsWith ln [CHR 0x09] \<and>
                 \<not> continuesContext (trim ln))"
  shows "scanFrom 0 (pre @ [ln]) ([], None, False) = (es @ [e], None, False) \<and>
         (\<exists>after. detectErrors output = es @ [e] @ after)"
proof -
  have nc: "\<not> continuesContext (trim ln)"
    using plain empty_not_continuation by auto
  have step: "scanLine (length pre) ln (es, Some e, True) = (es @ [e], None, False)"
    using nostart nc by (simp add: scanLine_open del: scanLine.simps)
  have a: "scanFrom 0 (pre @ [ln]) ([], None, False) = (es @ [e], None, False)"
    using opened step by (simp add: scanFrom_append)
  have "pre @ ln # post = (pre @ [ln]) @ post" by simp
  then have "detectErrors output =
        finish (scanFrom (length pre + 1) post (es @ [e], None, False))"
    using a lines scanFrom_append[of 0 "pre @ [ln]" post "([], None, False)"]
    by (simp add: detectErrors_def)
  moreover obtain m where
    "finish (scanFrom (length pre + 1) post (es @ [e], None, False)) = (es @ [e]) @ m"
    using finish_scanFrom_extends by blast
  ultimately have "detectErrors output = es @ [e] @ m" by simp
  then show ?thesis using a by blast
qed

text \<open>
  A block closed by the unindented line \<open>done\<close>.
\<close>

theorem plain_line_closes_block_witness:
  "split_lines ''Error: boom\<newline>done\<newline>  Line 3'' = [''Error: boom''] @ ''done'' # [''  Line 3''] \<and>
   scanFrom 0 [''Error: boom''] ([], None, False) =
     ([], Some \<lparr>line = 1, message = ''Error: boom'', context' = [], type' = ''runtime''\<rparr>, True) \<and>
   \<not> isErrorLine (trim ''done'') \<and>
   (trim ''done'' = [] \<or>
      (\<not> startsWith ''done'' '' '' \<and> \<not> startsWith ''done'' [CHR 0x09] \<and>
       \<not> continuesContext (trim ''done''))) \<and>
   scanFrom 0 ([''Error: boom''] @ [''done'']) ([], None, False) =
     ([] @ [\<lparr>line = 1, message = ''Error: boom'', context' = [], type' = ''runtime''\<rparr>], None, False) \<and>
   (\<exists>after. detectErrors ''Error: boom\<newline>done\<newline>  Line 3'' =
      [] @ [\<lparr>line = 1, message = ''Error: boom'', context' = [], type' = ''runtime''\<rparr>] @ after)"
proof -
  have l: "split_lines ''Error: boom\<newline>done\<newline>  Line 3'' = [''Error: boom''] @ ''done'' # [''  Line 3'']"
    by code_simp
  have s: "scanFrom 0 [''Error: boom''] ([], None, False) =
     ([], Some \<lparr>line = 1, message = ''Error: boom'', context' = [], type' = ''runtime''\<rparr>, True)"
    by code_simp
  have n: "\<not> isErrorLine (trim ''done'')" by code_simp
  have p: "trim ''done'' = [] \<or>
      (\<not> startsWith ''done'' '' '' \<and> \<not> startsWith ''done'' [CHR 0x09] \<and>
       \<not> continuesContext (trim ''done''))" by code_simp
  from plain_line_closes_block[OF l s n p] show ?thesis using l s n p by blast
qed

text \<open>
  C4 on the code: a line that, once trimmed, begins with \<open>What:\<close>, \<open>Line N:\<close>,
  \<open>File:\<close> or \<open>Stack:\<close> opens no block when none is open; no error is detected.
\<close>

theorem trace_marker_not_header:
  "map trim [''  What: boom'', ''  Line 12: x := y'', ''  File: a.ahk'', ''  Stack:''] =
     [''What: boom'', ''Line 12: x := y'', ''File: a.ahk'', ''Stack:''] \<and>
   map detectErrors [''  What: boom'', ''  Line 12: x := y'', ''  File: a.ahk'', ''  Stack:''] =
     [[], [], [], []]"
  by code_simp

text \<open>
  What the loop does for two consecutive lines that \<open>isErrorLine\<close> accepts: the start
  test is the first branch of the body, so each of them opens a record, and the first
  record has an empty context.
\<close>

lemma recognised_headers_adjacent:
  assumes lines: "split_lines output = pre @ [h1, h2] @ post"
    and h1: "isErrorLine (trim h1)"
    and h2: "isErrorLine (trim h2)"
  shows "\<exists>before c2 after.
           detectErrors output =
             before @
             [\<lparr>line = length pre + 1, message = trim h1, context' = [],
               type' = classifyError (trim h1)\<rparr>,
              \<lparr>line = length pre + 2, message = trim h2, context' = c2,
               type' = classifyError (trim h2)\<rparr>] @ after
           \<and> subseq c2 (map trim post)"
proof -
  define A where "A = \<lparr>line = length pre + 1, message = trim h1, context' = [],
               type' = classifyError (trim h1)\<rparr>"
  define B where "B = \<lparr>line = length pre + 2, message = trim h2, context' = [],
               type' = classifyError (trim h2)\<rparr>"
  obtain es cur b where st0: "scanFrom 0 pre ([], None, False) = (es, cur, b)"
    by (metis prod_cases3)
  define es1 where "es1 = (case cur of Some e \<Rightarrow> es @ [e] | None \<Rightarrow> es)"
  have s1: "scanLine (length pre) h1 (es, cur, b) = (es1, Some A, True)"
    using scanLine_header[OF h1] by (simp add: A_def es1_def)
  have s2: "scanLine (length pre + 1) h2 (es1, Some A, True) = (es1 @ [A], Some B, True)"
    using scanLine_header[OF h2, of "length pre + 1" es1 "Some A" True] by (simp add: B_def)
  have "scanFrom 0 (pre @ [h1, h2] @ post) ([], None, False)
        = scanFrom (length pre + 2) post (es1 @ [A], Some B, True)"
    using st0 s1 s2 by (simp add: scanFrom_append)
  then have d: "detectErrors output = finish (scanFrom (length pre + 2) post (es1 @ [A], Some B, True))"
    by (simp add: detectErrors_def lines)
  obtain c after where
    f: "finish (scanFrom (length pre + 2) post (es1 @ [A], Some B, True))
        = (es1 @ [A]) @ [B\<lparr>context' := context' B @ c\<rparr>] @ after"
    and s: "subseq c (map trim post)"
    using finish_scanFrom_open by blast
  have "detectErrors output = es1 @ [A, B\<lparr>context' := c\<rparr>] @ after"
    using d f by (simp add: B_def)
  then show ?thesis using s unfolding A_def B_def by auto
qed


text \<open>
  C8 on the code: two consecutive lines that both match start patterns, with no blank
  line between them, should give two adjacent records. The header \<open>Error: boom\<close>
  followed by the trace header \<open>What: x\<close> (indented) gives one record: the second line
  is not taken as a start line, because the pattern that requires leading white space
  is tested on the trimmed line, and the first record takes it as context.
\<close>

theorem trace_header_swallowed:
  "split_lines ''Error: boom\<newline>  What: x'' = [''Error: boom'', ''  What: x''] \<and>
   isErrorLine (trim ''Error: boom'') \<and>
   trim ''  What: x'' = ''What: x'' \<and>
   \<not> isErrorLine (trim ''  What: x'') \<and>
   detectErrors ''Error: boom\<newline>  What: x'' =
     [\<lparr>line = 1, message = ''Error: boom'', context' = [''What: x''], type' = ''runtime''\<rparr>]"
  by code_simp

text \<open>
  C9. The records are in the order of the header lines of the output: their line
  numbers and messages are those of the lines that match a start pattern, in order, so
  the line numbers are strictly increasing.
\<close>

theorem errors_in_header_order:
  "map (\<lambda>e. (line e, message e)) (detectErrors output) =
     map (\<lambda>(j, ln). (j + 1, trim ln))
       (filter (\<lambda>(j, ln). isErrorLine (trim ln)) (enumerate 0 (split_lines output)))
   \<and> sorted_wrt (<) (map line (detectErrors output))"
proof -
  let ?hs = "filter (\<lambda>(j, ln). isErrorLine (trim ln)) (enumerate 0 (split_lines output))"
  have m: "map (\<lambda>e. (line e, message e)) (detectErrors output) =
           map (\<lambda>(j, ln). (j + 1, trim ln)) ?hs"
    using map_line_scanFrom[of 0 "split_lines output" "([], None, False)"]
    by (simp add: detectErrors_def)
  have "map line (detectErrors output) = map fst (map (\<lambda>e. (line e, message e)) (detectErrors output))"
    by simp
  also have "\<dots> = map (\<lambda>(j, ln). j + 1) ?hs"
    unfolding m by (simp add: case_prod_beta)
  finally have "map line (detectErrors output) = map (\<lambda>(j, ln). j + 1) ?hs" .
  then show ?thesis using m sorted_enumerate_filter[of "\<lambda>(j, ln). isErrorLine (trim ln)" 0 "split_lines output"]
    by simp
qed

end
